theory Spec2Isabelle
  imports Main "HOL-Library.Word"
begin

section \<open>Strings and slices\<close>

text \<open>
  A Python \<open>str\<close> is a sequence of Unicode code points. The explainer's result depends
  on which characters of the pattern are decimal digits (the class \<open>\d\<close> of a \<open>str\<close>
  pattern accepts every Unicode decimal digit, not only the ASCII ones), so its patterns
  and descriptions are lists of code points, \<open>pystr\<close>; \<open>cpt\<close> is the code point of an
  8-bit character and \<open>str\<close> turns a literal into a \<open>pystr\<close>. The handlers further
  down only copy, slice and compare the text and replace five ASCII characters; their
  texts are \<^typ>\<open>string\<close>s. The three characters that cannot be typed inside a string
  literal comfortably are named.
\<close>

definition bslash :: char where
  "bslash = CHR 0x5C"

definition squote :: char where
  "squote = CHR 0x27"

definition dquote :: char where
  "dquote = CHR 0x22"

type_synonym codepoint = nat

type_synonym pystr = "codepoint list"

definition cpt :: "char \<Rightarrow> codepoint" where
  "cpt c = of_char c"

definition str :: "string \<Rightarrow> pystr" where
  "str s = map cpt s"

text \<open>\<open>xs[a:b]\<close> for non-negative \<open>a\<close>, \<open>b\<close>: out-of-range bounds are clamped, and
  \<open>b \<le> a\<close> gives the empty list.\<close>

definition slice :: "'a list \<Rightarrow> nat \<Rightarrow> nat \<Rightarrow> 'a list" where
  "slice xs a b = drop a (take b xs)"

lemma cpt_eq_iff [simp]: "cpt c = cpt d \<longleftrightarrow> c = d"
  by (simp add: cpt_def)

lemma str_Nil [simp]: "str [] = []"
  by (simp add: str_def)

lemma str_Cons [simp]: "str (c # s) = cpt c # str s"
  by (simp add: str_def)

lemma str_append [simp]: "str (a @ b) = str a @ str b"
  by (simp add: str_def)

section \<open>The pattern explainer (\<open>explain_regex\<close>)\<close>

text \<open>The dictionary \<open>token_map\<close> of the source, keys in the source's order.\<close>

definition token_table :: "(pystr \<times> pystr) list" where
  "token_table =
    [(str ''.'', str (''**Any Character** (`.`): Matches any single character except a newline (unless DOTALL flag is used).'')),
     (str ''^'', str (''**Start of String/Line** (`^`): Asserts the position at the start of the string (or the start of a line in MULTILINE mode).'')),
     (str ''$'', str (''**End of String/Line** (`$`): Asserts the position at the end of the string (or the end of a line in MULTILINE mode).'')),
     (str [bslash, CHR ''d''], str (''**Digit** (`'' @ [bslash] @ ''d`): Matches any digit from 0 to 9.'')),
     (str [bslash, CHR ''D''], str (''**Not a Digit** (`'' @ [bslash] @ ''D`): Matches any character that is not a digit.'')),
     (str [bslash, CHR ''w''], str (''**Word Character** (`'' @ [bslash] @ ''w`): Matches any letter (a-z, A-Z), digit (0-9), or underscore (_).'')),
     (str [bslash, CHR ''W''], str (''**Not a Word Character** (`'' @ [bslash] @ ''W`): Matches any character that is not a letter, digit, or underscore.'')),
     (str [bslash, CHR ''s''], str (''**Whitespace** (`'' @ [bslash] @ ''s`): Matches any whitespace character (like space, tab, newline).'')),
     (str [bslash, CHR ''S''], str (''**Not Whitespace** (`'' @ [bslash] @ ''S`): Matches any character that is not whitespace.'')),
     (str [bslash, CHR ''b''], str (''**Word Boundary** (`'' @ [bslash] @ ''b`): Asserts a position at a word boundary (e.g., between a letter and a space).'')),
     (str [bslash, CHR ''B''], str (''**Not a Word Boundary** (`'' @ [bslash] @ ''B`): Asserts a position that is not a word boundary.''))]"

definition token_map :: "pystr \<Rightarrow> pystr option" where
  "token_map = map_of token_table"

definition quantifier_map :: "codepoint \<Rightarrow> pystr" where
  "quantifier_map c =
    (if c = cpt CHR ''*'' then str ''**Zero or More** (`*`): The preceding element can occur 0 or more times.''
     else if c = cpt CHR ''+'' then str ''**One or More** (`+`): The preceding element must occur 1 or more times.''
     else str (''**Zero or One** (`?`): The preceding element can occur 0 or 1 time. It also makes a quantifier ''
          @ [squote] @ ''non-greedy'' @ [squote] @ ''.''))"

text \<open>
  The class \<open>\d\<close> of the source's pattern (a \<open>str\<close> pattern compiled without
  \<open>re.ASCII\<close>): the ten ASCII digits and the decimal digits of the Unicode database
  beyond ASCII, such as U+0663. Which code points those are depends on the version of the
  database that comes with Python, so that table is the parameter \<open>nd\<close>; everything below
  holds for every table.
\<close>

definition is_digit :: "(codepoint \<Rightarrow> bool) \<Rightarrow> codepoint \<Rightarrow> bool" where
  "is_digit nd c = (c \<in> set (str ''0123456789'') \<or> (128 \<le> c \<and> nd c))"

text \<open>
  \<open>re.match(r'\{(\d+)(,)?(\d+)?\}', s)\<close>: the match is anchored at the start of \<open>s\<close>.
  The first group is greedy and a shorter first group can never lead to a match the
  longest one misses (the character after it would be a digit, which neither the comma
  nor the closing brace accepts unless the third group takes the remaining digits, and
  then the longest first group matches as well and is tried first). The result is
  \<open>(group 0, group 1, group 2, group 3)\<close>, an optional group that took no part being
  \<open>None\<close>.
\<close>

definition brace_match ::
  "(codepoint \<Rightarrow> bool) \<Rightarrow> pystr \<Rightarrow> (pystr \<times> pystr \<times> pystr option \<times> pystr option) option" where
  "brace_match nd s =
    (case s of
       [] \<Rightarrow> None
     | c # r \<Rightarrow>
        if c \<noteq> cpt CHR ''{'' then None
        else
          (let g1 = takeWhile (is_digit nd) r; r1 = dropWhile (is_digit nd) r in
           if g1 = [] then None
           else
             (case r1 of
                [] \<Rightarrow> None
              | c1 # r2 \<Rightarrow>
                 if c1 = cpt CHR ''}'' then Some (str ''{'' @ g1 @ str ''}'', g1, None, None)
                 else if c1 = cpt CHR '','' then
                   (let d2 = takeWhile (is_digit nd) r2; r3 = dropWhile (is_digit nd) r2 in
                    case r3 of
                      [] \<Rightarrow> None
                    | c3 # _ \<Rightarrow>
                       if c3 = cpt CHR ''}''
                       then Some (str ''{'' @ g1 @ str '','' @ d2 @ str ''}'', g1, Some (str '',''),
                                  if d2 = [] then None else Some d2)
                       else None)
                 else None)))"

definition quantifier_desc :: "pystr \<Rightarrow> pystr \<Rightarrow> pystr" where
  "quantifier_desc quant_token desc =
     str ''- **Quantifier** (`'' @ quant_token @ str ''`): The preceding element must occur '' @ desc @ str ''.''"

definition literal_desc :: "pystr \<Rightarrow> codepoint \<Rightarrow> pystr" where
  "literal_desc token c =
     str ''- **Literal Character** (`'' @ token @ str ''`): Matches the character ''
       @ [cpt squote, c, cpt squote] @ str '' literally.''"

definition capturing_desc :: pystr where
  "capturing_desc = str ''**Capturing Group** (`(`...`)`): Groups multiple tokens together and creates a capture group to extract the matched substring.''"

definition non_capturing_desc :: pystr where
  "non_capturing_desc = str ''**Non-Capturing Group** (`(?:`...`)`): Groups tokens together without creating a capture group.''"

definition lookaround_desc :: pystr where
  "lookaround_desc = str ''- **Lookaround/Conditional** (`(?`...`)`): A special group that asserts a condition (e.g., lookahead, lookbehind) without consuming characters.''"

definition end_group_desc :: pystr where
  "end_group_desc = str ''- **End Group** (`)`): Closes the current group.''"

definition alternation_desc :: pystr where
  "alternation_desc = str ''- **Alternation / OR** (`|`): Acts like a boolean OR, matching the expression before or after it.''"

definition set_desc :: pystr where
  "set_desc = str ''**Character Set** (`[`...`]`) : Matches any single character from the set.''"

definition negated_set_desc :: pystr where
  "negated_set_desc = str ''**Negated Character Set** (`[^`...`]`) : Matches any single character *not* in the set.''"

definition end_set_desc :: pystr where
  "end_set_desc = str ''- **End Character Set** (`]`): Closes the character set.''"

definition empty_explanation :: pystr where
  "empty_explanation = str ''- This pattern appears to be empty or contains no standard regex tokens to explain.''"

text \<open>
  One iteration of the \<open>while\<close> loop, for a cursor \<open>i < len(pattern)\<close>: every path
  through the loop body appends exactly one description and moves the cursor, so the
  iteration is the pair (description appended, new cursor). The body is split where the
  source falls through: \<open>explain_group_etc\<close> is the part from \<open>if char == '('\<close> on,
  reached also by a \<open>{\<close> whose braces do not match.
\<close>

definition explain_group_etc :: "pystr \<Rightarrow> nat \<Rightarrow> pystr \<times> nat" where
  "explain_group_etc pattern i =
    (let char = pattern ! i in
     if char = cpt CHR ''('' then
       (if slice pattern i (i + 3) = str ''(?:'' then (str ''- '' @ non_capturing_desc, i + 2 + 1)
        else if slice pattern i (i + 2) = str ''(?'' then (lookaround_desc, i + 1)
        else (str ''- '' @ capturing_desc, i + 1))
     else if char = cpt CHR '')'' then (end_group_desc, i + 1)
     else if char = cpt CHR ''|'' then (alternation_desc, i + 1)
     else if char = cpt CHR ''['' then
       (if slice pattern (i + 1) (i + 2) = str ''^'' then (str ''- '' @ negated_set_desc, i + 1 + 1)
        else (str ''- '' @ set_desc, i + 1))
     else if char = cpt CHR '']'' then (end_set_desc, i + 1)
     else (literal_desc [char] char, i + 1))"

definition explain_brace :: "(codepoint \<Rightarrow> bool) \<Rightarrow> pystr \<Rightarrow> nat \<Rightarrow> pystr \<times> nat" where
  "explain_brace nd pattern i =
    (case (if pattern ! i = cpt CHR ''{'' then brace_match nd (drop i pattern) else None) of
       Some (quant_token, g1, g2, g3) \<Rightarrow>
         (let desc =
            (if g2 = None \<and> g3 = None then str ''exactly '' @ g1 @ str '' times''
             else if g3 = None then str ''at least '' @ g1 @ str '' times''
             else str ''between '' @ g1 @ str '' and '' @ the g3 @ str '' times'')
          in (quantifier_desc quant_token desc, i + length quant_token))
     | None \<Rightarrow> explain_group_etc pattern i)"

definition explain_step :: "(codepoint \<Rightarrow> bool) \<Rightarrow> pystr \<Rightarrow> nat \<Rightarrow> pystr \<times> nat" where
  "explain_step nd pattern i =
    (let char = pattern ! i in
     if char = cpt bslash \<and> i + 1 < length pattern then
       (let token = slice pattern i (i + 2) in
        case token_map token of
          Some d \<Rightarrow> (str ''- '' @ d, i + 2)
        | None \<Rightarrow> (literal_desc token (pattern ! (i + 1)), i + 2))
     else
       (case token_map [char] of
          Some d \<Rightarrow> (str ''- '' @ d, i + 1)
        | None \<Rightarrow>
           if char \<in> set (str ''*+?'') then (str ''- '' @ quantifier_map char, i + 1)
           else explain_brace nd pattern i))"

lemma brace_match_nonempty: "brace_match nd s = Some (g0, g1, g2, g3) \<Longrightarrow> g0 \<noteq> []"
  by (auto simp: brace_match_def Let_def split: list.splits if_splits)

lemma explain_group_etc_advances: "i < snd (explain_group_etc pattern i)"
  by (simp add: explain_group_etc_def Let_def)

lemma explain_brace_advances: "i < snd (explain_brace nd pattern i)"
proof (cases "if pattern ! i = cpt CHR ''{'' then brace_match nd (drop i pattern) else None")
  case None
  then show ?thesis
    by (simp add: explain_brace_def explain_group_etc_advances)
next
  case (Some r)
  obtain g0 g1 g2 g3 where r: "r = (g0, g1, g2, g3)"
    by (cases r) auto
  from Some r have "brace_match nd (drop i pattern) = Some (g0, g1, g2, g3)"
    by (simp split: if_splits)
  then have "g0 \<noteq> []"
    by (rule brace_match_nonempty)
  with Some r show ?thesis
    by (simp add: explain_brace_def Let_def)
qed

lemma explain_step_advances: "i < snd (explain_step nd pattern i)"
  by (simp add: explain_step_def Let_def explain_brace_advances split: option.splits)

text \<open>The \<open>while i < len(pattern)\<close> loop; \<open>explanation\<close> is the list built so far.\<close>

function explain_loop :: "(codepoint \<Rightarrow> bool) \<Rightarrow> pystr \<Rightarrow> nat \<Rightarrow> pystr list \<Rightarrow> pystr list" where
  "explain_loop nd pattern i explanation =
     (if i < length pattern
      then (case explain_step nd pattern i of
              (d, i') \<Rightarrow> explain_loop nd pattern i' (explanation @ [d]))
      else explanation)"
  by pat_completeness auto
termination
  apply (relation "measure (\<lambda>(nd, pattern, i, explanation). length pattern - i)")
   apply simp
  subgoal for nd pattern i explanation d i'
    using explain_step_advances [of i nd pattern] by (cases "explain_step nd pattern i") auto
  done

declare explain_loop.simps [simp del]

definition explain_regex :: "(codepoint \<Rightarrow> bool) \<Rightarrow> pystr \<Rightarrow> pystr list" where
  "explain_regex nd pattern =
     (let explanation = explain_loop nd pattern 0 [] in
      if explanation = [] then [empty_explanation] else explanation)"

text \<open>Two tables for concrete runs: no decimal digit beyond ASCII, and the Arabic-Indic
  digits U+0660 to U+0669.\<close>

definition ascii_only :: "codepoint \<Rightarrow> bool" where
  "ascii_only c = False"

definition arabic_indic :: "codepoint \<Rightarrow> bool" where
  "arabic_indic c = (0x660 \<le> c \<and> c \<le> 0x669)"

section \<open>Properties of the explainer\<close>

lemma explain_loop_length:
  "length acc + (if i < length p then 1 else 0) \<le> length (explain_loop nd p i acc) \<and>
   length (explain_loop nd p i acc) \<le> length acc + (length p - i)"
proof (induction nd p i acc rule: explain_loop.induct)
  case (1 nd pattern i explanation)
  show ?case
  proof (cases "i < length pattern")
    case False
    then show ?thesis by (simp add: explain_loop.simps [of nd pattern i explanation])
  next
    case True
    obtain d i' where st: "explain_step nd pattern i = (d, i')"
      by (cases "explain_step nd pattern i") auto
    have adv: "i < i'"
      using explain_step_advances [of i nd pattern] st by simp
    from "1.IH" [OF True st [symmetric]]
    have ih: "length (explanation @ [d]) + (if i' < length pattern then 1 else 0)
               \<le> length (explain_loop nd pattern i' (explanation @ [d]))"
      "length (explain_loop nd pattern i' (explanation @ [d]))
               \<le> length (explanation @ [d]) + (length pattern - i')"
      by simp_all
    have eq: "explain_loop nd pattern i explanation = explain_loop nd pattern i' (explanation @ [d])"
      using True st by (simp add: explain_loop.simps [of nd pattern i explanation])
    from ih adv True show ?thesis
      unfolding eq by (auto split: if_splits)
  qed
qed

text \<open>
  Claim C3. For every input string the scan of \<open>explain_regex\<close> terminates:
  \<open>explain_loop\<close> is a total function whose termination rests on the cursor strictly
  increasing in every iteration (\<open>i < snd (explain_step nd pattern i)\<close>, whatever the
  characters at the cursor are: a trailing backslash and unrecognised symbols included),
  so it runs at most \<open>len(pattern)\<close> iterations. The result is never the empty list,
  and for the empty pattern it is the single placeholder.
\<close>

theorem explain_regex_total:
  "explain_regex nd pattern \<noteq> []
   \<and> explain_regex nd [] = [empty_explanation]
   \<and> explain_regex nd [] =
        [str ''- This pattern appears to be empty or contains no standard regex tokens to explain.'']
   \<and> i < snd (explain_step nd pattern i)
   \<and> length (explain_regex nd pattern) \<le> max 1 (length pattern)"
proof -
  have a: "explain_regex nd pattern \<noteq> []"
    by (simp add: explain_regex_def Let_def)
  have b: "explain_regex nd [] = [empty_explanation]"
    by (simp add: explain_regex_def explain_loop.simps [of nd "[]" 0 "[]"])
  have c: "i < snd (explain_step nd pattern i)"
    by (rule explain_step_advances)
  have d: "length (explain_regex nd pattern) \<le> max 1 (length pattern)"
    using explain_loop_length [of "[]" 0 pattern nd]
    by (auto simp: explain_regex_def Let_def)
  from a b c d show ?thesis
    by (simp add: empty_explanation_def)
qed

lemma explain_regex_trailing_backslash:
  "explain_regex nd [cpt bslash] = [literal_desc [cpt bslash] (cpt bslash)]"
  by code_simp

theorem explain_regex_total_witness:
  "explain_regex ascii_only [cpt bslash] \<noteq> []
   \<and> 0 < snd (explain_step ascii_only [cpt bslash] 0)
   \<and> length (explain_regex arabic_indic (str ''#%~'')) \<le> max 1 (length (str ''#%~''))"
  using explain_regex_total [of ascii_only "[cpt bslash]" 0]
    explain_regex_total [of arabic_indic "str ''#%~''" 0]
  by simp

subsection \<open>Brace quantifiers\<close>




























subsection \<open>Groups, alternation and character sets\<close>

lemma slice_one: "slice p n (Suc n) = (if n < length p then [p ! n] else [])"
  by (simp add: slice_def take_Suc_conv_app_nth)

lemma token_map_delims:
  "token_map [cpt CHR '')''] = None" "token_map [cpt CHR ''|''] = None" "token_map [cpt CHR '']''] = None"
  "token_map [cpt CHR ''['']  = None" "token_map [cpt CHR ''(''] = None"
  by (simp_all add: token_map_def token_table_def bslash_def)

lemma explain_step_delim:
  assumes "c \<in> set ''()|[]''" and "p ! i = cpt c"
  shows "explain_step nd p i = explain_group_etc p i"
proof -
  from assms(1) have t: "token_map [cpt c] = None"
    using token_map_delims by auto
  from assms(1) have n: "c \<noteq> bslash" "c \<notin> set ''*+?''" "c \<noteq> CHR ''{''"
    by (auto simp: bslash_def)
  show ?thesis
    using n by (simp add: explain_step_def explain_brace_def assms(2) t Let_def)
qed

text \<open>
  Claim C6 (as amended). When the cursor is on \<open>)\<close>, \<open>|\<close> or \<open>]\<close> the iteration emits
  the fixed description of that character and moves the cursor by one. On \<open>[\<close> it emits
  the character-set description and moves by one, unless the next character is \<open>^\<close>:
  then it emits the negated-set description and moves by two, past the \<open>^\<close>. The
  descriptions are given in full.
\<close>

theorem explain_delimiters:
  "i < length p \<Longrightarrow>
   (p ! i = cpt CHR '')'' \<longrightarrow> explain_step nd p i = (end_group_desc, i + 1)) \<and>
   (p ! i = cpt CHR ''|'' \<longrightarrow> explain_step nd p i = (alternation_desc, i + 1)) \<and>
   (p ! i = cpt CHR '']'' \<longrightarrow> explain_step nd p i = (end_set_desc, i + 1)) \<and>
   (p ! i = cpt CHR ''['' \<longrightarrow> explain_step nd p i =
       (if i + 1 < length p \<and> p ! (i + 1) = cpt CHR ''^''
        then (str ''- '' @ negated_set_desc, i + 2)
        else (str ''- '' @ set_desc, i + 1))) \<and>
   end_group_desc = str ''- **End Group** (`)`): Closes the current group.'' \<and>
   alternation_desc =
     str ''- **Alternation / OR** (`|`): Acts like a boolean OR, matching the expression before or after it.'' \<and>
   end_set_desc = str ''- **End Character Set** (`]`): Closes the character set.'' \<and>
   str ''- '' @ negated_set_desc =
     str ''- **Negated Character Set** (`[^`...`]`) : Matches any single character *not* in the set.'' \<and>
   str ''- '' @ set_desc =
     str ''- **Character Set** (`[`...`]`) : Matches any single character from the set.''"
proof (intro conjI impI)
  assume "p ! i = cpt CHR '')''"
  then show "explain_step nd p i = (end_group_desc, i + 1)"
    using explain_step_delim [of "CHR '')''" p i nd] by (simp add: explain_group_etc_def)
next
  assume "p ! i = cpt CHR ''|''"
  then show "explain_step nd p i = (alternation_desc, i + 1)"
    using explain_step_delim [of "CHR ''|''" p i nd] by (simp add: explain_group_etc_def)
next
  assume "p ! i = cpt CHR '']''"
  then show "explain_step nd p i = (end_set_desc, i + 1)"
    using explain_step_delim [of "CHR '']''" p i nd] by (simp add: explain_group_etc_def)
next
  assume "p ! i = cpt CHR ''[''"
  then show "explain_step nd p i =
       (if i + 1 < length p \<and> p ! (i + 1) = cpt CHR ''^''
        then (str ''- '' @ negated_set_desc, i + 2)
        else (str ''- '' @ set_desc, i + 1))"
    using explain_step_delim [of "CHR ''[''" p i nd] slice_one [of p "Suc i"]
    by (simp add: explain_group_etc_def)
qed (simp_all add: end_group_desc_def alternation_desc_def end_set_desc_def negated_set_desc_def
      set_desc_def)

theorem explain_delimiters_witness:
  "explain_step ascii_only (str ''a)|[^x][y]'') 1 = (str ''- **End Group** (`)`): Closes the current group.'', 2)
   \<and> explain_step ascii_only (str ''a)|[^x][y]'') 2 = (alternation_desc, 3)
   \<and> explain_step ascii_only (str ''a)|[^x][y]'') 6 = (end_set_desc, 7)
   \<and> explain_step ascii_only (str ''a)|[^x][y]'') 3 = (str ''- '' @ negated_set_desc, 5)
   \<and> explain_step ascii_only (str ''a)|[^x][y]'') 7 = (str ''- '' @ set_desc, 8)"
  using explain_delimiters [of 1 "str ''a)|[^x][y]''" ascii_only]
    explain_delimiters [of 2 "str ''a)|[^x][y]''" ascii_only]
    explain_delimiters [of 6 "str ''a)|[^x][y]''" ascii_only]
    explain_delimiters [of 3 "str ''a)|[^x][y]''" ascii_only]
    explain_delimiters [of 7 "str ''a)|[^x][y]''" ascii_only]
  by simp

text \<open>
  The claim C6 as stated (the cursor advances by one on a character-set open, negated or
  not) fails on \<open>[^a]\<close>: the cursor moves from 0 to 2.
\<close>

theorem negated_set_advances_two:
  "explain_step ascii_only (str ''[^a]'') 0 = (str ''- '' @ negated_set_desc, 2)
   \<and> snd (explain_step ascii_only (str ''[^a]'') 0) \<noteq> 0 + 1"
  by code_simp

text \<open>
  Claim C5. On \<open>(?:\<close> the cursor moves by three and on a bare \<open>(\<close> by one
  (\<open>explain_group_open\<close> below), but on a lookaround prefix \<open>(?\<close> it moves by one
  only, not past the two characters of the prefix: on \<open>(?=a)\<close> the \<open>?\<close> of the prefix is
  described again, as the zero-or-one quantifier.
\<close>

theorem lookaround_prefix_redescribed:
  "explain_step nd (str ''(?=a)'') 0 = (lookaround_desc, 1)
   \<and> explain_regex nd (str ''(?=a)'') =
       [lookaround_desc, str ''- '' @ quantifier_map (cpt CHR ''?''),
        literal_desc (str ''='') (cpt CHR ''=''), literal_desc (str ''a'') (cpt CHR ''a''),
        end_group_desc]
   \<and> str ''- '' @ quantifier_map (cpt CHR ''?'') =
       str ''- **Zero or One** (`?`): The preceding element can occur 0 or 1 time. It also makes a quantifier ''
         @ [cpt squote] @ str ''non-greedy'' @ [cpt squote] @ str ''.''"
  by code_simp

lemma explain_group_open:
  assumes "i < length p" and "p ! i = cpt CHR ''(''"
  shows "explain_step nd p i =
    (if slice p i (i + 3) = str ''(?:'' then (str ''- '' @ non_capturing_desc, i + 3)
     else if slice p i (i + 2) = str ''(?'' then (lookaround_desc, i + 1)
     else (str ''- '' @ capturing_desc, i + 1))"
  using explain_step_delim [of "CHR ''(''" p i nd] assms(2)
  by (simp add: explain_group_etc_def)

unbundle bit_operations_syntax

section \<open>The session and the regular-expression engine\<close>

text \<open>
  The keys of \<open>st.session_state\<close> the modelled handlers read or write, as one record
  passed to every handler and returned updated. \<open>last_editor_content\<close> is the depth-1
  undo snapshot (\<open>None\<close> in Python is \<open>None\<close> here). Toasts and \<open>st.error\<close> messages
  are UI effects; they are collected in \<open>notices\<close> in the order they are raised.
\<close>

datatype notice =
    ToastEditorEmpty
  | ToastEnterPattern
  | ToastReplacementComplete
  | ErrorInvalidRegex string

record session =
  pattern_input :: string
  case_sensitive_input :: bool
  multiline_input :: bool
  dotall_input :: bool
  editor_content :: string
  color_input :: string
  replace_with_input :: string
  highlight_output :: string
  match_count :: nat
  last_editor_content :: "string option"
  notices :: "notice list"

text \<open>
  Python's \<open>re\<close> module is a library the repository calls, not part of its sources, so
  the handlers take it as a parameter: \<open>re_compile pattern flags\<close> either raises
  \<open>re.error\<close> (\<open>Inl\<close> with the message) or returns a compiled pattern,
  \<open>re_finditer\<close> gives the match spans \<open>(start, end)\<close> in the order the iterator
  yields them, and \<open>re_sub cp repl text\<close> the substituted text (or \<open>re.error\<close> for a
  bad template).
\<close>

record 'cp regex_engine =
  re_compile :: "string \<Rightarrow> nat \<Rightarrow> string + 'cp"
  re_finditer :: "'cp \<Rightarrow> string \<Rightarrow> (nat \<times> nat) list"
  re_sub :: "'cp \<Rightarrow> string \<Rightarrow> string \<Rightarrow> string + string"

definition re_IGNORECASE :: nat where
  "re_IGNORECASE = 2"

definition re_MULTILINE :: nat where
  "re_MULTILINE = 8"

definition re_DOTALL :: nat where
  "re_DOTALL = 16"

definition compile_pattern :: "'cp regex_engine \<Rightarrow> string \<Rightarrow> bool \<Rightarrow> bool \<Rightarrow> bool \<Rightarrow> string + 'cp" where
  "compile_pattern eng pattern case_sensitive multiline dotall =
     (let flags = (if case_sensitive then 0 else re_IGNORECASE);
          flags = (if multiline then flags OR re_MULTILINE else flags);
          flags = (if dotall then flags OR re_DOTALL else flags)
      in re_compile eng pattern flags)"

section \<open>The live highlighter (\<open>live_highlight\<close>)\<close>

text \<open>\<open>s.replace(c, r)\<close> for a one-character \<open>c\<close>, and \<open>html.escape(s)\<close> with its
  default \<open>quote=True\<close>: five replacements, the ampersand first.\<close>

definition replace_char :: "char \<Rightarrow> string \<Rightarrow> string \<Rightarrow> string" where
  "replace_char c r s = concat (map (\<lambda>x. if x = c then r else [x]) s)"

definition html_escape :: "string \<Rightarrow> string" where
  "html_escape s =
     replace_char squote ''&#x27;''
       (replace_char dquote ''&quot;''
         (replace_char CHR ''>'' ''&gt;''
           (replace_char CHR ''<'' ''&lt;''
             (replace_char CHR ''&'' ''&amp;'' s))))"

definition enter_pattern_html :: string where
  "enter_pattern_html =
     ''<p style='' @ [squote] @ ''color:grey; font-family:monospace;'' @ [squote]
       @ ''>Enter a pattern to see live highlighting.</p>''"

definition no_matches_html :: string where
  "no_matches_html =
     ''<p style='' @ [squote] @ ''color:grey; font-family:monospace;'' @ [squote]
       @ ''>No matches found.</p>''"

definition invalid_regex_html :: "string \<Rightarrow> string" where
  "invalid_regex_html e =
     ''<p style='' @ [dquote] @ ''color:red; font-family: monospace;'' @ [dquote]
       @ ''>Invalid Regex: '' @ e @ ''</p>''"

definition mark_open :: "string \<Rightarrow> string" where
  "mark_open color = ''<mark style='' @ [dquote] @ ''background-color:'' @ color @ '';'' @ [dquote] @ ''>''"

definition mark_close :: string where
  "mark_close = ''</mark>''"

definition div_open :: string where
  "div_open = ''<div style='' @ [dquote] @ ''white-space:pre-wrap; font-family: monospace;'' @ [dquote] @ ''>''"

definition div_close :: string where
  "div_close = ''</div>''"

text \<open>The \<open>for m in matches\<close> loop: the state is \<open>(output_html, last_end)\<close>.\<close>

fun highlight_loop :: "string \<Rightarrow> string \<Rightarrow> (nat \<times> nat) list \<Rightarrow> string \<Rightarrow> nat \<Rightarrow> string \<times> nat" where
  "highlight_loop text_content color [] output_html last_end = (output_html, last_end)"
| "highlight_loop text_content color ((m_start, m_end) # matches) output_html last_end =
     (let output_html = output_html @ html_escape (slice text_content last_end m_start);
          match_text = html_escape (slice text_content m_start m_end);
          output_html = output_html @ mark_open color @ match_text @ mark_close
      in highlight_loop text_content color matches output_html m_end)"

definition live_highlight :: "'cp regex_engine \<Rightarrow> session \<Rightarrow> session" where
  "live_highlight eng st =
     (let pattern = pattern_input st;
          case_sensitive = case_sensitive_input st;
          multiline = multiline_input st;
          dotall = dotall_input st;
          text_content = editor_content st;
          color = color_input st
      in
      if pattern = [] \<or> text_content = []
      then st\<lparr>highlight_output := enter_pattern_html, match_count := 0\<rparr>
      else
        (case compile_pattern eng pattern case_sensitive multiline dotall of
           Inl e \<Rightarrow> st\<lparr>highlight_output := invalid_regex_html e, match_count := 0\<rparr>
         | Inr cp \<Rightarrow>
            (let matches = re_finditer eng cp text_content;
                 count = length matches
             in
             if matches = []
             then st\<lparr>highlight_output := no_matches_html, match_count := count\<rparr>
             else
               (case highlight_loop text_content color matches [] 0 of
                  (output_html, last_end) \<Rightarrow>
                    (let output_html = output_html @ html_escape (drop last_end text_content);
                         output_html = div_open @ output_html @ div_close
                     in st\<lparr>highlight_output := output_html, match_count := count\<rparr>)))))"

section \<open>Replace in editor (\<open>replace_editor_content\<close>)\<close>

definition replace_editor_content :: "'cp regex_engine \<Rightarrow> session \<Rightarrow> session" where
  "replace_editor_content eng st =
     (if editor_content st = [] then st\<lparr>notices := notices st @ [ToastEditorEmpty]\<rparr>
      else
        (let pattern = pattern_input st in
         if pattern = [] then st\<lparr>notices := notices st @ [ToastEnterPattern]\<rparr>
         else
           (case compile_pattern eng pattern (case_sensitive_input st) (multiline_input st)
                   (dotall_input st) of
              Inl e \<Rightarrow> st\<lparr>notices := notices st @ [ErrorInvalidRegex e]\<rparr>
            | Inr cp \<Rightarrow>
               (let original = editor_content st;
                    st1 = st\<lparr>last_editor_content := Some original\<rparr>
                in
                case re_sub eng cp (replace_with_input st) original of
                  Inl e \<Rightarrow> st1\<lparr>notices := notices st1 @ [ErrorInvalidRegex e]\<rparr>
                | Inr replaced \<Rightarrow>
                   (let st2 = live_highlight eng (st1\<lparr>editor_content := replaced\<rparr>)
                    in st2\<lparr>notices := notices st2 @ [ToastReplacementComplete]\<rparr>)))))"

text \<open>Two engines for concrete runs: one whose \<open>re.compile\<close> rejects every pattern with
  a fixed message, and one that compiles every pattern to a matcher that finds nothing.\<close>

definition rejecting_engine :: "unit regex_engine" where
  "rejecting_engine =
     \<lparr>re_compile = (\<lambda>pattern flags. Inl ''unterminated character set at position 0''),
      re_finditer = (\<lambda>cp txt. []),
      re_sub = (\<lambda>cp repl txt. Inr txt)\<rparr>"

definition matchless_engine :: "unit regex_engine" where
  "matchless_engine =
     \<lparr>re_compile = (\<lambda>pattern flags. Inr ()),
      re_finditer = (\<lambda>cp txt. []),
      re_sub = (\<lambda>cp repl txt. Inr txt)\<rparr>"

text \<open>A freshly initialised session (the defaults the script installs at start-up).\<close>

definition session0 :: session where
  "session0 =
     \<lparr>pattern_input = [], case_sensitive_input = False, multiline_input = False,
      dotall_input = False, editor_content = [], color_input = ''yellow'',
      replace_with_input = [], highlight_output = [], match_count = 0,
      last_editor_content = None, notices = []\<rparr>"

section \<open>Properties of the handlers\<close>

text \<open>
  Claim C10. Whenever the pattern string or the editor text is empty, \<open>live_highlight\<close>
  sets the match count to 0 and the output to the fixed instructional placeholder, and
  changes nothing else. It does so without compiling or matching: the result is the same
  whatever the engine is, so an empty pattern always reports zero matches.
\<close>

theorem live_highlight_empty_input:
  "pattern_input st = [] \<or> editor_content st = [] \<Longrightarrow>
   live_highlight eng st = st\<lparr>highlight_output := enter_pattern_html, match_count := 0\<rparr>
   \<and> match_count (live_highlight eng st) = 0
   \<and> highlight_output (live_highlight eng st) = enter_pattern_html
   \<and> live_highlight eng' st = live_highlight eng st"
  by (auto simp: live_highlight_def Let_def)

theorem live_highlight_empty_input_witness:
  "match_count (live_highlight matchless_engine (session0\<lparr>editor_content := ''some text'', match_count := 7\<rparr>)) = 0
   \<and> highlight_output (live_highlight matchless_engine (session0\<lparr>editor_content := ''some text''\<rparr>)) = enter_pattern_html
   \<and> match_count (live_highlight rejecting_engine (session0\<lparr>pattern_input := ''a*'', match_count := 7\<rparr>)) = 0"
  using live_highlight_empty_input [of "session0\<lparr>editor_content := ''some text'', match_count := 7\<rparr>" matchless_engine rejecting_engine]
    live_highlight_empty_input [of "session0\<lparr>editor_content := ''some text''\<rparr>" matchless_engine rejecting_engine]
    live_highlight_empty_input [of "session0\<lparr>pattern_input := ''a*'', match_count := 7\<rparr>" rejecting_engine matchless_engine]
  by (simp add: session0_def)

text \<open>
  Claim C9. With a non-empty editor text and a non-empty pattern, if compiling the
  pattern raises \<open>re.error\<close>, \<open>replace_editor_content\<close> only reports the error: the
  editor content and the undo snapshot \<open>last_editor_content\<close> are exactly what they
  were, since the compilation comes before the snapshot and before any change of the
  text.
\<close>

theorem replace_atomic_on_pattern_error:
  "editor_content st \<noteq> [] \<Longrightarrow> pattern_input st \<noteq> [] \<Longrightarrow>
   compile_pattern eng (pattern_input st) (case_sensitive_input st) (multiline_input st)
     (dotall_input st) = Inl e \<Longrightarrow>
   replace_editor_content eng st = st\<lparr>notices := notices st @ [ErrorInvalidRegex e]\<rparr>
   \<and> editor_content (replace_editor_content eng st) = editor_content st
   \<and> last_editor_content (replace_editor_content eng st) = last_editor_content st"
  by (simp add: replace_editor_content_def Let_def)

theorem replace_atomic_on_pattern_error_witness:
  "editor_content (replace_editor_content rejecting_engine
       (session0\<lparr>pattern_input := ''[a'', editor_content := ''banana'', last_editor_content := Some ''old''\<rparr>)) = ''banana''
   \<and> last_editor_content (replace_editor_content rejecting_engine
       (session0\<lparr>pattern_input := ''[a'', editor_content := ''banana'', last_editor_content := Some ''old''\<rparr>)) = Some ''old''"
  using replace_atomic_on_pattern_error [of "session0\<lparr>pattern_input := ''[a'', editor_content := ''banana'', last_editor_content := Some ''old''\<rparr>"
      rejecting_engine "''unterminated character set at position 0''"]
  by (simp add: session0_def rejecting_engine_def compile_pattern_def Let_def)

section \<open>The escaping round trip\<close>

text \<open>
  The two operations the round-trip property speaks of, which are not in the source:
  removing the wrapper markup the highlighter adds (the \<open>mark\<close> tags around a match and
  the \<open>div\<close> around the whole), scanning left to right, and unescaping the five entities
  \<open>html.escape\<close> produces.
\<close>

definition starts_with :: "string \<Rightarrow> string \<Rightarrow> bool" where
  "starts_with m s = (take (length m) s = m)"

function strip_wrappers :: "string \<Rightarrow> string \<Rightarrow> string" where
  "strip_wrappers color s =
     (if s = [] then []
      else if starts_with mark_close s then strip_wrappers color (drop (length mark_close) s)
      else if starts_with div_close s then strip_wrappers color (drop (length div_close) s)
      else if starts_with div_open s then strip_wrappers color (drop (length div_open) s)
      else if starts_with (mark_open color) s
        then strip_wrappers color (drop (length (mark_open color)) s)
      else hd s # strip_wrappers color (tl s))"
  by pat_completeness auto
termination
  by (relation "measure (\<lambda>(color, s). length s)")
     (auto simp: mark_close_def div_close_def div_open_def mark_open_def)

declare strip_wrappers.simps [simp del]

function unescape :: "string \<Rightarrow> string" where
  "unescape s =
     (if s = [] then []
      else if starts_with ''&amp;'' s then CHR ''&'' # unescape (drop 5 s)
      else if starts_with ''&lt;'' s then CHR ''<'' # unescape (drop 4 s)
      else if starts_with ''&gt;'' s then CHR ''>'' # unescape (drop 4 s)
      else if starts_with ''&quot;'' s then dquote # unescape (drop 6 s)
      else if starts_with ''&#x27;'' s then squote # unescape (drop 6 s)
      else hd s # unescape (tl s))"
  by pat_completeness auto
termination
  by (relation "measure length") auto

declare unescape.simps [simp del]

text \<open>What \<open>html.escape\<close> makes of one character; the five replacements, done one
  after the other on the whole string, amount to replacing every character by this.\<close>

definition escape_char :: "char \<Rightarrow> string" where
  "escape_char c =
     (if c = CHR ''&'' then ''&amp;''
      else if c = CHR ''<'' then ''&lt;''
      else if c = CHR ''>'' then ''&gt;''
      else if c = dquote then ''&quot;''
      else if c = squote then ''&#x27;''
      else [c])"

lemma replace_char_append: "replace_char c r (a @ b) = replace_char c r a @ replace_char c r b"
  by (simp add: replace_char_def)

lemma replace_char_Nil: "replace_char c r [] = []"
  by (simp add: replace_char_def)

lemma replace_char_Cons: "replace_char c r (x # s) = (if x = c then r else [x]) @ replace_char c r s"
  by (simp add: replace_char_def)

lemma html_escape_Nil: "html_escape [] = []"
  by (simp add: html_escape_def replace_char_Nil)

lemma html_escape_append: "html_escape (a @ b) = html_escape a @ html_escape b"
  by (simp add: html_escape_def replace_char_append)

lemma html_escape_single: "html_escape [c] = escape_char c"
  by (simp add: html_escape_def escape_char_def replace_char_Cons replace_char_Nil squote_def dquote_def)

lemma html_escape_Cons: "html_escape (c # s) = escape_char c @ html_escape s"
  using html_escape_append [of "[c]" s] by (simp add: html_escape_single)

lemma html_escape_concat: "html_escape s = concat (map escape_char s)"
  by (induction s) (simp_all add: html_escape_Nil html_escape_Cons)

lemma unescape_Nil: "unescape [] = []"
  by (simp add: unescape.simps [of "[]"])

lemma unescape_escape_char: "unescape (escape_char c @ rest) = c # unescape rest"
proof -
  consider "c = CHR ''&''" | "c = CHR ''<''" | "c = CHR ''>''" | "c = dquote" | "c = squote"
    | "c \<noteq> CHR ''&''" "c \<noteq> CHR ''<''" "c \<noteq> CHR ''>''" "c \<noteq> dquote" "c \<noteq> squote"
    by blast
  then show ?thesis
  proof cases
    case 1
    then show ?thesis
      by (subst unescape.simps) (simp add: escape_char_def starts_with_def)
  next
    case 2
    then show ?thesis
      by (subst unescape.simps) (simp add: escape_char_def starts_with_def)
  next
    case 3
    then show ?thesis
      by (subst unescape.simps) (simp add: escape_char_def starts_with_def)
  next
    case 4
    then show ?thesis
      by (subst unescape.simps) (simp add: escape_char_def starts_with_def dquote_def)
  next
    case 5
    then show ?thesis
      by (subst unescape.simps) (simp add: escape_char_def starts_with_def dquote_def squote_def)
  next
    case 6
    then show ?thesis
      by (subst unescape.simps) (simp add: escape_char_def starts_with_def)
  qed
qed

lemma unescape_html_escape_append: "unescape (html_escape t @ rest) = t @ unescape rest"
  by (induction t) (simp_all add: html_escape_Nil html_escape_Cons unescape_escape_char)

lemma unescape_html_escape: "unescape (html_escape t) = t"
  using unescape_html_escape_append [of t "[]"] by (simp add: unescape_Nil)

lemma escape_char_no_lt: "CHR ''<'' \<notin> set (escape_char c)"
  by (simp add: escape_char_def)

lemma html_escape_no_lt: "CHR ''<'' \<notin> set (html_escape t)"
  by (induction t) (simp_all add: html_escape_Nil html_escape_Cons escape_char_no_lt)

lemma strip_wrappers_Nil: "strip_wrappers color [] = []"
  by (simp add: strip_wrappers.simps [of color "[]"])

lemma strip_wrappers_plain: "CHR ''<'' \<noteq> c \<Longrightarrow> strip_wrappers color (c # s) = c # strip_wrappers color s"
  by (subst strip_wrappers.simps)
     (auto simp: starts_with_def mark_close_def div_close_def div_open_def mark_open_def)

lemma strip_wrappers_text:
  "CHR ''<'' \<notin> set u \<Longrightarrow> strip_wrappers color (u @ rest) = u @ strip_wrappers color rest"
  by (induction u) (simp_all add: strip_wrappers_plain)

lemma strip_wrappers_mark_close: "strip_wrappers color (mark_close @ rest) = strip_wrappers color rest"
  by (subst strip_wrappers.simps, simp add: starts_with_def)
     (simp add: mark_close_def)

lemma strip_wrappers_div_close: "strip_wrappers color (div_close @ rest) = strip_wrappers color rest"
  by (subst strip_wrappers.simps, simp add: starts_with_def)
     (simp add: mark_close_def div_close_def)

lemma strip_wrappers_div_open: "strip_wrappers color (div_open @ rest) = strip_wrappers color rest"
  by (subst strip_wrappers.simps, simp add: starts_with_def)
     (simp add: mark_close_def div_close_def div_open_def)

lemma strip_wrappers_mark_open: "strip_wrappers color (mark_open color @ rest) = strip_wrappers color rest"
  by (subst strip_wrappers.simps, simp add: starts_with_def)
     (simp add: mark_close_def div_close_def div_open_def mark_open_def)

text \<open>
  A list of match spans is ordered from a cursor position when every span starts at or
  after the end of the one before it (the cursor for the first) and ends at or after its
  own start.
\<close>

fun spans_ordered_from :: "nat \<Rightarrow> (nat \<times> nat) list \<Rightarrow> bool" where
  "spans_ordered_from last_end [] = True"
| "spans_ordered_from last_end ((s, e) # ms) = (last_end \<le> s \<and> s \<le> e \<and> spans_ordered_from e ms)"

definition spans_ordered :: "(nat \<times> nat) list \<Rightarrow> bool" where
  "spans_ordered ms = spans_ordered_from 0 ms"

text \<open>What the loop appends, and the cursor it ends with, as functions of the spans.\<close>

fun highlight_body :: "string \<Rightarrow> string \<Rightarrow> (nat \<times> nat) list \<Rightarrow> nat \<Rightarrow> string" where
  "highlight_body text_content color [] last_end = []"
| "highlight_body text_content color ((s, e) # ms) last_end =
     html_escape (slice text_content last_end s) @ mark_open color
       @ html_escape (slice text_content s e) @ mark_close
       @ highlight_body text_content color ms e"

fun final_end :: "(nat \<times> nat) list \<Rightarrow> nat \<Rightarrow> nat" where
  "final_end [] last_end = last_end"
| "final_end ((s, e) # ms) last_end = final_end ms e"

lemma highlight_loop_body:
  "highlight_loop t color ms out last_end = (out @ highlight_body t color ms last_end, final_end ms last_end)"
  by (induction ms arbitrary: out last_end) (auto simp: Let_def)

lemma slice_then_drop: "a \<le> b \<Longrightarrow> slice xs a b @ drop b xs = drop a xs"
proof -
  assume ab: "a \<le> b"
  have "drop a xs = drop a (take b xs @ drop b xs)"
    by simp
  also have "\<dots> = drop a (take b xs) @ drop (a - length (take b xs)) (drop b xs)"
    by (rule drop_append)
  also have "drop (a - length (take b xs)) (drop b xs) = drop b xs"
    using ab by (cases "b \<le> length xs") (simp_all add: min_def)
  finally show ?thesis
    by (simp add: slice_def)
qed

lemma strip_highlight_body:
  "spans_ordered_from last_end ms \<Longrightarrow>
   strip_wrappers color (highlight_body t color ms last_end
       @ html_escape (drop (final_end ms last_end) t) @ rest)
   = html_escape (drop last_end t) @ strip_wrappers color rest"
proof (induction ms arbitrary: last_end)
  case Nil
  show ?case
    by (simp add: strip_wrappers_text html_escape_no_lt)
next
  case (Cons m ms)
  obtain s e where m: "m = (s, e)"
    by (cases m) auto
  from Cons.prems m have ord: "last_end \<le> s" "s \<le> e" "spans_ordered_from e ms"
    by simp_all
  have "strip_wrappers color (highlight_body t color (m # ms) last_end
          @ html_escape (drop (final_end (m # ms) last_end) t) @ rest)
      = html_escape (slice t last_end s) @ html_escape (slice t s e)
          @ strip_wrappers color (highlight_body t color ms e
              @ html_escape (drop (final_end ms e) t) @ rest)"
    by (simp add: m strip_wrappers_text html_escape_no_lt strip_wrappers_mark_open
        strip_wrappers_mark_close)
  also have "\<dots> = html_escape (slice t last_end s) @ html_escape (slice t s e)
          @ html_escape (drop e t) @ strip_wrappers color rest"
    by (simp add: Cons.IH [OF ord(3)])
  also have "\<dots> = html_escape (slice t last_end s @ slice t s e @ drop e t) @ strip_wrappers color rest"
    by (simp add: html_escape_append)
  also have "slice t last_end s @ slice t s e @ drop e t = drop last_end t"
    by (simp add: slice_then_drop ord)
  finally show ?case .
qed

text \<open>
  What neutralising the markup-significant characters means for a piece of escaped text:
  it contains no angle bracket and no quote, and every ampersand in it starts one of the
  five entities, so nothing in it can be read as a tag or as the end of an attribute.
\<close>

definition entity_at :: "string \<Rightarrow> bool" where
  "entity_at s =
     (starts_with ''&amp;'' s \<or> starts_with ''&lt;'' s \<or> starts_with ''&gt;'' s
      \<or> starts_with ''&quot;'' s \<or> starts_with ''&#x27;'' s)"

fun neutralized :: "string \<Rightarrow> bool" where
  "neutralized [] = True"
| "neutralized (c # s) =
     (c \<noteq> CHR ''<'' \<and> c \<noteq> CHR ''>'' \<and> c \<noteq> dquote \<and> c \<noteq> squote
      \<and> (if c = CHR ''&'' then entity_at (c # s) else True)
      \<and> neutralized s)"

lemma neutralized_escape_char:
  "neutralized rest \<Longrightarrow> neutralized (escape_char c @ rest)"
  by (simp add: escape_char_def entity_at_def starts_with_def dquote_def squote_def)

lemma neutralized_html_escape: "neutralized (html_escape t)"
  by (induction t) (simp_all add: html_escape_Nil html_escape_Cons neutralized_escape_char)

lemma neutralized_no_markup:
  "neutralized u \<Longrightarrow> CHR ''<'' \<notin> set u \<and> CHR ''>'' \<notin> set u \<and> dquote \<notin> set u \<and> squote \<notin> set u"
  by (induction u) auto

lemma highlight_output_matches:
  assumes "pattern_input st \<noteq> []" and "editor_content st \<noteq> []"
    and "compile_pattern eng (pattern_input st) (case_sensitive_input st) (multiline_input st)
           (dotall_input st) = Inr cp"
    and "re_finditer eng cp (editor_content st) = ms" and "ms \<noteq> []"
  shows "highlight_output (live_highlight eng st) =
     div_open @ highlight_body (editor_content st) (color_input st) ms 0
       @ html_escape (drop (final_end ms 0) (editor_content st)) @ div_close"
  using assms by (simp add: live_highlight_def Let_def highlight_loop_body)

text \<open>
  Claim C1 (as amended). For every text and every non-empty list of match spans that is
  ordered and non-overlapping, found by the compiled pattern of a session whose pattern
  and text are non-empty, the markup \<open>live_highlight\<close> produces reconstructs the text
  exactly once the wrapper markup is removed and the entities are unescaped. The markup
  is the wrapper around the escaped text between the matches and the escaped matches,
  and without the wrapper it is the escaped text: every character of the text, outside
  and inside matches, goes through \<open>html.escape\<close>. That function neutralises angle
  brackets, ampersand and quotes: whatever string \<open>u\<close> it is given, its result contains no
  \<open><\<close>, no \<open>>\<close>, no double and no single quote, and every \<open>&\<close> in it starts an entity.
\<close>

theorem highlight_roundtrip:
  assumes "pattern_input st \<noteq> []" and "editor_content st \<noteq> []"
    and "compile_pattern eng (pattern_input st) (case_sensitive_input st) (multiline_input st)
           (dotall_input st) = Inr cp"
    and "re_finditer eng cp (editor_content st) = ms" and "ms \<noteq> []"
    and "spans_ordered ms"
  shows "unescape (strip_wrappers (color_input st) (highlight_output (live_highlight eng st)))
           = editor_content st
         \<and> highlight_output (live_highlight eng st) =
             div_open @ highlight_body (editor_content st) (color_input st) ms 0
               @ html_escape (drop (final_end ms 0) (editor_content st)) @ div_close
         \<and> strip_wrappers (color_input st) (highlight_output (live_highlight eng st))
             = html_escape (editor_content st)
         \<and> neutralized (strip_wrappers (color_input st) (highlight_output (live_highlight eng st)))
         \<and> neutralized (html_escape u)
         \<and> CHR ''<'' \<notin> set (html_escape u) \<and> CHR ''>'' \<notin> set (html_escape u)
         \<and> dquote \<notin> set (html_escape u) \<and> squote \<notin> set (html_escape u)"
proof -
  let ?t = "editor_content st" and ?c = "color_input st"
  have out: "highlight_output (live_highlight eng st) =
     div_open @ highlight_body ?t ?c ms 0 @ html_escape (drop (final_end ms 0) ?t) @ div_close"
    using assms(1-5) by (rule highlight_output_matches)
  have "strip_wrappers ?c (div_open @ highlight_body ?t ?c ms 0
            @ html_escape (drop (final_end ms 0) ?t) @ div_close)
        = strip_wrappers ?c (highlight_body ?t ?c ms 0
            @ html_escape (drop (final_end ms 0) ?t) @ div_close)"
    by (rule strip_wrappers_div_open)
  also have "\<dots> = html_escape (drop 0 ?t) @ strip_wrappers ?c div_close"
    using assms(6) unfolding spans_ordered_def by (rule strip_highlight_body)
  also have "strip_wrappers ?c div_close = []"
    using strip_wrappers_div_close [of ?c "[]"] by (simp add: strip_wrappers_Nil)
  finally have stripped: "strip_wrappers ?c (highlight_output (live_highlight eng st)) = html_escape ?t"
    unfolding out by simp
  have n: "neutralized (html_escape u)" "neutralized (html_escape ?t)"
    by (rule neutralized_html_escape)+
  from stripped out n neutralized_no_markup [OF n(1)] show ?thesis
    by (simp add: unescape_html_escape)
qed

text \<open>An engine that compiles every pattern and yields a given list of spans, and two
  sessions for concrete runs.\<close>

definition stub_engine :: "(nat \<times> nat) list \<Rightarrow> unit regex_engine" where
  "stub_engine ms =
     \<lparr>re_compile = (\<lambda>pattern flags. Inr ()),
      re_finditer = (\<lambda>cp txt. ms),
      re_sub = (\<lambda>cp repl txt. Inr txt)\<rparr>"

definition session_markup :: session where
  "session_markup =
     \<lparr>pattern_input = ''b|&c'', case_sensitive_input = False, multiline_input = False,
      dotall_input = False, editor_content = ''a<b>&c'', color_input = ''yellow'',
      replace_with_input = [], highlight_output = [], match_count = 0,
      last_editor_content = None, notices = []\<rparr>"

definition session_no_match :: session where
  "session_no_match =
     \<lparr>pattern_input = ''b'', case_sensitive_input = False, multiline_input = False,
      dotall_input = False, editor_content = ''a'', color_input = ''yellow'',
      replace_with_input = [], highlight_output = [], match_count = 0,
      last_editor_content = None, notices = []\<rparr>"

theorem highlight_roundtrip_witness:
  "unescape (strip_wrappers ''yellow''
      (highlight_output (live_highlight (stub_engine [(2, 3), (4, 6)]) session_markup))) = ''a<b>&c''
   \<and> highlight_output (live_highlight (stub_engine [(2, 3), (4, 6)]) session_markup) =
       div_open @ ''a&lt;'' @ mark_open ''yellow'' @ ''b'' @ mark_close @ ''&gt;''
         @ mark_open ''yellow'' @ ''&amp;c'' @ mark_close @ div_close
   \<and> strip_wrappers ''yellow''
        (highlight_output (live_highlight (stub_engine [(2, 3), (4, 6)]) session_markup))
       = ''a&lt;b&gt;&amp;c''
   \<and> html_escape [CHR ''<'', CHR ''>'', CHR ''&'', dquote, squote] = ''&lt;&gt;&amp;&quot;&#x27;''
   \<and> neutralized (html_escape [CHR ''<'', CHR ''>'', CHR ''&'', dquote, squote])
   \<and> dquote \<notin> set (html_escape [CHR ''<'', CHR ''>'', CHR ''&'', dquote, squote])"
proof -
  have h: "pattern_input session_markup \<noteq> []" "editor_content session_markup \<noteq> []"
    "compile_pattern (stub_engine [(2, 3), (4, 6)]) (pattern_input session_markup)
       (case_sensitive_input session_markup) (multiline_input session_markup)
       (dotall_input session_markup) = Inr ()"
    "re_finditer (stub_engine [(2, 3), (4, 6)]) () (editor_content session_markup) = [(2, 3), (4, 6)]"
    "[(2, 3), (4, 6)] \<noteq> ([] :: (nat \<times> nat) list)"
    "spans_ordered [(2, 3), (4, 6)]"
    by (simp_all add: session_markup_def stub_engine_def compile_pattern_def Let_def spans_ordered_def)
  have e: "html_escape ''a<'' = ''a&lt;''" "html_escape ''b'' = ''b''" "html_escape ''>'' = ''&gt;''"
    "html_escape ''&c'' = ''&amp;c''" "html_escape [] = []"
    "html_escape ''a<b>&c'' = ''a&lt;b&gt;&amp;c''"
    by (simp_all add: html_escape_concat escape_char_def dquote_def squote_def)
  have q: "html_escape [CHR ''<'', CHR ''>'', CHR ''&'', dquote, squote] = ''&lt;&gt;&amp;&quot;&#x27;''"
    by (simp add: html_escape_concat escape_char_def dquote_def squote_def)
  have f: "color_input session_markup = ''yellow''" "editor_content session_markup = ''a<b>&c''"
    by (simp_all add: session_markup_def)
  note r = highlight_roundtrip [OF h, unfolded f,
      of "[CHR ''<'', CHR ''>'', CHR ''&'', dquote, squote]"]
  have b: "highlight_body ''a<b>&c'' ''yellow'' [(2, 3), (4, 6)] 0
             @ html_escape (drop (final_end [(2, 3), (4, 6)] 0) ''a<b>&c'')
           = ''a&lt;'' @ mark_open ''yellow'' @ ''b'' @ mark_close @ ''&gt;''
               @ mark_open ''yellow'' @ ''&amp;c'' @ mark_close"
    by (simp add: slice_def e)
  have c1: "unescape (strip_wrappers ''yellow''
      (highlight_output (live_highlight (stub_engine [(2, 3), (4, 6)]) session_markup))) = ''a<b>&c''"
    using r by (rule conjunct1)
  have c2: "highlight_output (live_highlight (stub_engine [(2, 3), (4, 6)]) session_markup) =
       div_open @ ''a&lt;'' @ mark_open ''yellow'' @ ''b'' @ mark_close @ ''&gt;''
         @ mark_open ''yellow'' @ ''&amp;c'' @ mark_close @ div_close"
    using r [THEN conjunct2, THEN conjunct1] b by (simp del: highlight_body.simps final_end.simps)
  have c3: "strip_wrappers ''yellow''
        (highlight_output (live_highlight (stub_engine [(2, 3), (4, 6)]) session_markup))
       = ''a&lt;b&gt;&amp;c''"
    using r [THEN conjunct2, THEN conjunct2, THEN conjunct1] unfolding e(6) .
  have c4: "neutralized (html_escape [CHR ''<'', CHR ''>'', CHR ''&'', dquote, squote])"
    using r [THEN conjunct2, THEN conjunct2, THEN conjunct2, THEN conjunct2] by (rule conjunct1)
  have c5: "dquote \<notin> set (html_escape [CHR ''<'', CHR ''>'', CHR ''&'', dquote, squote])"
    using r [THEN conjunct2, THEN conjunct2, THEN conjunct2, THEN conjunct2] by blast
  from c1 c2 c3 q c4 c5 show ?thesis
    by (intro conjI)
qed

text \<open>
  The claim C1 as stated, for every list of match spans, fails for the empty list: the
  pattern \<open>b\<close> finds nothing in the text \<open>a\<close>, the output is the fixed "No matches
  found." paragraph, and stripping and unescaping it does not give back the text.
\<close>

theorem highlight_roundtrip_fails_without_matches:
  "spans_ordered (re_finditer matchless_engine () (editor_content session_no_match))
   \<and> highlight_output (live_highlight matchless_engine session_no_match) = no_matches_html
   \<and> unescape (strip_wrappers (color_input session_no_match)
        (highlight_output (live_highlight matchless_engine session_no_match)))
       \<noteq> editor_content session_no_match"
  by code_simp

section \<open>Non-overlapping find and substitution\<close>

text \<open>
  Modelled from the spec: the matching itself (\<open>finditer\<close> and \<open>sub\<close> of a compiled
  pattern) is done by Python's \<open>re\<close> module, which is not among the repository's
  sources. The specification describes it as "non-overlapping find: repeated matching
  that always resumes scanning from the end of the previous match", left to right. What
  a pattern matches is left open: a \<open>matcher\<close> gives, for a text and a start position,
  the lengths of the matches that start there, in the order the engine prefers them.
  \<open>pick\<close> takes the first one that stays inside the text; after an empty match the next
  match at the same position must be non-empty (\<open>must_advance\<close>), as in Python's scanner,
  or the scan would never leave the position. \<open>finditer_from\<close> tries the positions in
  ascending order, resuming at the end of each match found.
\<close>

type_synonym matcher = "string \<Rightarrow> nat \<Rightarrow> nat list"

definition pick :: "matcher \<Rightarrow> string \<Rightarrow> nat \<Rightarrow> bool \<Rightarrow> nat option" where
  "pick m tx pos must_advance =
     (case filter (\<lambda>l. pos + l \<le> length tx \<and> (if must_advance then l \<noteq> 0 else True)) (m tx pos) of
        [] \<Rightarrow> None
      | l # _ \<Rightarrow> Some l)"

lemma pick_Some: "pick m tx pos adv = Some l \<Longrightarrow> pos + l \<le> length tx \<and> (adv \<longrightarrow> l \<noteq> 0)"
proof -
  assume a: "pick m tx pos adv = Some l"
  let ?P = "\<lambda>l. pos + l \<le> length tx \<and> (if adv then l \<noteq> 0 else True)"
  from a obtain r where "filter ?P (m tx pos) = l # r"
    by (auto simp: pick_def split: list.splits)
  then have "l \<in> set (filter ?P (m tx pos))"
    by simp
  then have "?P l"
    by simp
  then show ?thesis
    by (simp split: if_splits)
qed

function finditer_from :: "matcher \<Rightarrow> string \<Rightarrow> nat \<Rightarrow> bool \<Rightarrow> (nat \<times> nat) list" where
  "finditer_from m tx pos must_advance =
     (if length tx < pos then []
      else
        (case pick m tx pos must_advance of
           None \<Rightarrow> finditer_from m tx (pos + 1) False
         | Some l \<Rightarrow> (pos, pos + l) # finditer_from m tx (pos + l) (l = 0)))"
  by pat_completeness auto
termination
  apply (relation "measure (\<lambda>(m, tx, pos, adv). 2 * (length tx + 1 - pos) + (if adv then 0 else 1))")
    apply simp
   apply (auto split: if_splits)[1]
  subgoal for m tx pos must_advance l
    using pick_Some [of m tx pos must_advance l] by (cases "l = 0") auto
  done

declare finditer_from.simps [simp del]

definition finditer :: "matcher \<Rightarrow> string \<Rightarrow> (nat \<times> nat) list" where
  "finditer m tx = finditer_from m tx 0 False"

text \<open>The matcher of a pattern that is one literal string.\<close>

definition literal_matcher :: "string \<Rightarrow> matcher" where
  "literal_matcher lit tx pos = (if slice tx pos (pos + length lit) = lit then [length lit] else [])"

text \<open>The matcher of the pattern \<open>x*\<close>: at every position, the longest run of \<open>x\<close>
  first, then the shorter ones down to the empty match.\<close>

definition star_matcher :: "char \<Rightarrow> matcher" where
  "star_matcher c tx pos = rev [0 ..< Suc (length (takeWhile (\<lambda>x. x = c) (drop pos tx)))]"


lemma spans_ordered_from_mono: "a \<le> b \<Longrightarrow> spans_ordered_from b ms \<Longrightarrow> spans_ordered_from a ms"
  by (cases ms) auto

lemma finditer_from_ordered: "spans_ordered_from pos (finditer_from m tx pos adv)"
proof (induction m tx pos adv rule: finditer_from.induct)
  case (1 m tx pos must_advance)
  show ?case
  proof (cases "length tx < pos")
    case True
    then show ?thesis
      by (simp add: finditer_from.simps [of m tx pos must_advance])
  next
    case False
    show ?thesis
    proof (cases "pick m tx pos must_advance")
      case None
      from "1.IH"(1) [OF False None]
      have "spans_ordered_from pos (finditer_from m tx (pos + 1) False)"
        by (rule spans_ordered_from_mono [rotated]) simp
      then show ?thesis
        using False None by (simp add: finditer_from.simps [of m tx pos must_advance])
    next
      case (Some l)
      from "1.IH"(2) [OF False Some]
      show ?thesis
        using False Some by (simp add: finditer_from.simps [of m tx pos must_advance])
    qed
  qed
qed

text \<open>Every span ends inside a text of length \<open>n\<close>.\<close>

fun spans_within :: "nat \<Rightarrow> (nat \<times> nat) list \<Rightarrow> bool" where
  "spans_within n [] = True"
| "spans_within n ((s, e) # ms) = (e \<le> n \<and> spans_within n ms)"

lemma finditer_from_within: "spans_within (length tx) (finditer_from m tx pos adv)"
proof (induction m tx pos adv rule: finditer_from.induct)
  case (1 m tx pos must_advance)
  show ?case
  proof (cases "length tx < pos")
    case True
    then show ?thesis
      by (simp add: finditer_from.simps [of m tx pos must_advance])
  next
    case False
    show ?thesis
    proof (cases "pick m tx pos must_advance")
      case None
      from "1.IH"(1) [OF False None] show ?thesis
        using False None by (simp add: finditer_from.simps [of m tx pos must_advance])
    next
      case (Some l)
      from "1.IH"(2) [OF False Some] pick_Some [OF Some]
      show ?thesis
        using False Some by (simp add: finditer_from.simps [of m tx pos must_advance])
    qed
  qed
qed

lemma spans_ordered_from_nth:
  "spans_ordered_from a ms \<Longrightarrow> Suc i < length ms \<Longrightarrow>
   fst (ms ! i) \<le> fst (ms ! Suc i) \<and> snd (ms ! i) \<le> fst (ms ! Suc i)"
proof (induction ms arbitrary: a i)
  case Nil
  then show ?case by simp
next
  case (Cons x ms)
  obtain s e where x: "x = (s, e)" by (cases x) auto
  from Cons.prems(2) obtain y ms' where ms: "ms = y # ms'"
    by (cases ms) auto
  obtain s' e' where y: "y = (s', e')" by (cases y) auto
  from Cons.prems(1) have o: "s \<le> e" "e \<le> s'" "spans_ordered_from e ms"
    by (simp_all add: x ms y)
  show ?case
  proof (cases i)
    case 0
    with o show ?thesis by (simp add: x ms y)
  next
    case (Suc j)
    with Cons.prems(2) have "Suc j < length ms" by simp
    from Cons.IH [OF o(3) this] show ?thesis
      by (simp add: Suc)
  qed
qed

lemma spans_ordered_from_each:
  "spans_ordered_from a ms \<Longrightarrow> i < length ms \<Longrightarrow> a \<le> fst (ms ! i) \<and> fst (ms ! i) \<le> snd (ms ! i)"
proof (induction ms arbitrary: a i)
  case Nil
  then show ?case by simp
next
  case (Cons x ms)
  obtain s e where x: "x = (s, e)" by (cases x) auto
  from Cons.prems(1) have o: "a \<le> s" "s \<le> e" "spans_ordered_from e ms"
    by (simp_all add: x)
  show ?case
  proof (cases i)
    case 0
    with o show ?thesis by (simp add: x)
  next
    case (Suc j)
    with Cons.prems(2) have "j < length ms" by simp
    from Cons.IH [OF o(3) this] o show ?thesis
      by (simp add: Suc)
  qed
qed

text \<open>
  Claim C2. For every pattern (every matcher) and every text, the spans of the
  non-overlapping left-to-right find are ordered by ascending start offset, consecutive
  spans satisfy \<open>match[i].end \<le> match[i+1].start\<close>, and every span ends at or after
  its start: they are ordered from the cursor position 0 in the sense the highlighter's
  walk needs (\<open>spans_ordered\<close>), so \<open>last_end\<close> never moves backwards.
\<close>

theorem finditer_spans_ordered:
  "spans_ordered (finditer m tx)
   \<and> (\<forall>i. Suc i < length (finditer m tx) \<longrightarrow>
         fst (finditer m tx ! i) \<le> fst (finditer m tx ! Suc i)
         \<and> snd (finditer m tx ! i) \<le> fst (finditer m tx ! Suc i))
   \<and> (\<forall>i. i < length (finditer m tx) \<longrightarrow>
         fst (finditer m tx ! i) \<le> snd (finditer m tx ! i))"
proof -
  have o: "spans_ordered_from 0 (finditer m tx)"
    unfolding finditer_def by (rule finditer_from_ordered)
  show ?thesis
    using o spans_ordered_from_nth [OF o] spans_ordered_from_each [OF o]
    by (simp add: spans_ordered_def)
qed

theorem finditer_spans_ordered_witness:
  "finditer (star_matcher CHR ''x'') ''abxd'' = [(0, 0), (1, 1), (2, 3), (3, 3), (4, 4)]
   \<and> spans_ordered (finditer (star_matcher CHR ''x'') ''abxd'')
   \<and> snd (finditer (star_matcher CHR ''x'') ''abxd'' ! 2) \<le> fst (finditer (star_matcher CHR ''x'') ''abxd'' ! Suc 2)"
proof -
  have v: "finditer (star_matcher CHR ''x'') ''abxd'' = [(0, 0), (1, 1), (2, 3), (3, 3), (4, 4)]"
    by code_simp
  have n: "Suc 2 < length (finditer (star_matcher CHR ''x'') ''abxd'')"
    unfolding v by simp
  from finditer_spans_ordered [of "star_matcher CHR ''x''" "''abxd''"] n v show ?thesis
    by blast
qed

text \<open>
  Modelled from the spec: \<open>sub\<close> "applies the substitution to every non-overlapping
  match, left to right, returning the fully substituted text". \<open>repl\<close> is the text a
  match is replaced by; for a template without group references (the empty template among
  them) it is the template itself. \<open>total_match_length\<close> is the number of characters the
  matches cover.
\<close>

fun splice :: "string \<Rightarrow> string \<Rightarrow> (nat \<times> nat) list \<Rightarrow> nat \<Rightarrow> string" where
  "splice tx repl [] last_end = drop last_end tx"
| "splice tx repl ((s, e) # ms) last_end = slice tx last_end s @ repl @ splice tx repl ms e"

definition re_sub_spec :: "matcher \<Rightarrow> string \<Rightarrow> string \<Rightarrow> string" where
  "re_sub_spec m repl tx = splice tx repl (finditer m tx) 0"

fun total_match_length :: "(nat \<times> nat) list \<Rightarrow> nat" where
  "total_match_length [] = 0"
| "total_match_length ((s, e) # ms) = (e - s) + total_match_length ms"

lemma splice_empty_length:
  "spans_ordered_from last_end ms \<Longrightarrow> spans_within (length tx) ms \<Longrightarrow> last_end \<le> length tx \<Longrightarrow>
   length (splice tx [] ms last_end) + total_match_length ms = length tx - last_end"
proof (induction ms arbitrary: last_end)
  case Nil
  then show ?case by simp
next
  case (Cons x ms)
  obtain s e where x: "x = (s, e)" by (cases x) auto
  from Cons.prems x have o: "last_end \<le> s" "s \<le> e" "spans_ordered_from e ms"
    "e \<le> length tx" "spans_within (length tx) ms"
    by simp_all
  from Cons.IH [OF o(3) o(5) o(4)]
  have "length (splice tx [] ms e) + total_match_length ms = length tx - e" .
  moreover have "length (slice tx last_end s) = s - last_end"
    using o by (auto simp: slice_def min_def)
  ultimately show ?case
    using o by (simp add: x)
qed

lemma splice_empty_same:
  "spans_ordered_from last_end ms \<Longrightarrow> total_match_length ms = 0 \<Longrightarrow>
   splice tx [] ms last_end = drop last_end tx"
proof (induction ms arbitrary: last_end)
  case Nil
  then show ?case by simp
next
  case (Cons x ms)
  obtain s e where x: "x = (s, e)" by (cases x) auto
  from Cons.prems x have o: "last_end \<le> s" "s \<le> e" "spans_ordered_from e ms"
    "e - s = 0" "total_match_length ms = 0"
    by simp_all
  then have se: "e = s" by simp
  from Cons.IH [OF o(3) o(5)] have "splice tx [] ms e = drop e tx" .
  then show ?case
    using o(1) by (simp add: x se slice_then_drop)
qed

lemma re_sub_spec_empty_length:
  "length (re_sub_spec m [] tx) + total_match_length (finditer m tx) = length tx"
  using splice_empty_length [of 0 "finditer m tx" tx]
    finditer_from_ordered [of 0 m tx False] finditer_from_within [of tx m 0 False]
  by (simp add: re_sub_spec_def finditer_def)

lemma re_sub_spec_empty_same:
  "re_sub_spec m [] tx = tx \<longleftrightarrow> total_match_length (finditer m tx) = 0"
proof
  assume "re_sub_spec m [] tx = tx"
  with re_sub_spec_empty_length [of m tx] show "total_match_length (finditer m tx) = 0"
    by simp
next
  assume "total_match_length (finditer m tx) = 0"
  with splice_empty_same [of 0 "finditer m tx" tx] finditer_from_ordered [of 0 m tx False]
  show "re_sub_spec m [] tx = tx"
    by (simp add: re_sub_spec_def finditer_def)
qed

text \<open>
  The text outside the matches, stated without \<open>splice\<close>: a position is covered when
  it lies inside one of the spans, and \<open>outside_matches\<close> keeps the characters at the
  positions no span covers, in their order.
\<close>

definition covered :: "(nat \<times> nat) list \<Rightarrow> nat \<Rightarrow> bool" where
  "covered ms i = list_ex (\<lambda>(s, e). s \<le> i \<and> i < e) ms"

definition outside_matches :: "string \<Rightarrow> (nat \<times> nat) list \<Rightarrow> string" where
  "outside_matches tx ms = map ((!) tx) (filter (\<lambda>i. \<not> covered ms i) [0 ..< length tx])"

lemma covered_Nil [simp]: "covered [] i = False"
  by (simp add: covered_def)

lemma covered_Cons [simp]: "covered ((s, e) # ms) i = ((s \<le> i \<and> i < e) \<or> covered ms i)"
  by (simp add: covered_def)

lemma not_covered_before: "spans_ordered_from a ms \<Longrightarrow> i < a \<Longrightarrow> \<not> covered ms i"
proof (induction ms arbitrary: a)
  case Nil
  then show ?case by simp
next
  case (Cons x ms)
  obtain s e where x: "x = (s, e)" by (cases x) auto
  from Cons.prems x have o: "a \<le> s" "s \<le> e" "spans_ordered_from e ms"
    by simp_all
  from Cons.prems(2) o have "i < e" by simp
  from Cons.IH [OF o(3) this] Cons.prems(2) o show ?case
    by (simp add: x)
qed

lemma map_nth_upt_slice: "b \<le> length xs \<Longrightarrow> map ((!) xs) [a ..< b] = slice xs a b"
  by (rule nth_equalityI) (auto simp: slice_def)

lemma upt_split: "a \<le> b \<Longrightarrow> b \<le> c \<Longrightarrow> [a ..< c] = [a ..< b] @ [b ..< c]"
  using upt_add_eq_append [of a b "c - b"] by simp

lemma outside_from:
  "spans_ordered_from last_end ms \<Longrightarrow> spans_within (length tx) ms \<Longrightarrow> last_end \<le> length tx \<Longrightarrow>
   splice tx [] ms last_end = map ((!) tx) (filter (\<lambda>i. \<not> covered ms i) [last_end ..< length tx])"
proof (induction ms arbitrary: last_end)
  case Nil
  then show ?case
    using map_nth_upt_slice [of "length tx" tx last_end] by (simp add: slice_def)
next
  case (Cons x ms)
  obtain s e where x: "x = (s, e)" by (cases x) auto
  from Cons.prems x have o: "last_end \<le> s" "s \<le> e" "spans_ordered_from e ms"
    "e \<le> length tx" "spans_within (length tx) ms"
    by simp_all
  have split: "[last_end ..< length tx] = [last_end ..< s] @ [s ..< e] @ [e ..< length tx]"
    using o upt_split [of last_end s "length tx"] upt_split [of s e "length tx"] by simp
  have f1: "filter (\<lambda>i. \<not> covered (x # ms) i) [last_end ..< s] = [last_end ..< s]"
  proof -
    have "\<forall>i \<in> set [last_end ..< s]. \<not> covered (x # ms) i"
      using not_covered_before [OF o(3)] o by (auto simp: x)
    then show ?thesis
      by (simp only: filter_True)
  qed
  have f2: "filter (\<lambda>i. \<not> covered (x # ms) i) [s ..< e] = []"
    by (auto simp: x filter_empty_conv)
  have f3: "filter (\<lambda>i. \<not> covered (x # ms) i) [e ..< length tx]
              = filter (\<lambda>i. \<not> covered ms i) [e ..< length tx]"
    by (rule filter_cong) (auto simp: x)
  have "map ((!) tx) (filter (\<lambda>i. \<not> covered (x # ms) i) [last_end ..< length tx])
        = map ((!) tx) [last_end ..< s] @ map ((!) tx) (filter (\<lambda>i. \<not> covered ms i) [e ..< length tx])"
    unfolding split filter_append f1 f2 f3 by simp
  also have "map ((!) tx) [last_end ..< s] = slice tx last_end s"
    using o by (intro map_nth_upt_slice) simp
  also have "map ((!) tx) (filter (\<lambda>i. \<not> covered ms i) [e ..< length tx]) = splice tx [] ms e"
    using Cons.IH [OF o(3) o(5) o(4)] by simp
  finally show ?case
    by (simp add: x)
qed

lemma re_sub_spec_outside:
  "re_sub_spec m [] tx = outside_matches tx (finditer m tx)"
  using outside_from [of 0 "finditer m tx" tx]
    finditer_from_ordered [of 0 m tx False] finditer_from_within [of tx m 0 False]
  by (simp add: re_sub_spec_def finditer_def outside_matches_def)

text \<open>
  Claim C7 (as amended). Substituting the empty template deletes exactly the text of the
  non-overlapping matches found: the result consists of the characters of the text that
  lie in no match, in their order, so it is shorter than the text by the total length of
  the matches, and equal to the text exactly when every match found is empty.
  Re-running the substitution on the result gives either the identical text or a strictly
  shorter one.
\<close>

theorem replace_with_empty_shrinks:
  "re_sub_spec m [] tx = outside_matches tx (finditer m tx)
   \<and> length (re_sub_spec m [] tx) + total_match_length (finditer m tx) = length tx
   \<and> (re_sub_spec m [] tx = tx \<longleftrightarrow> total_match_length (finditer m tx) = 0)
   \<and> (re_sub_spec m [] (re_sub_spec m [] tx) = re_sub_spec m [] tx
        \<or> length (re_sub_spec m [] (re_sub_spec m [] tx)) < length (re_sub_spec m [] tx))"
proof -
  let ?t1 = "re_sub_spec m [] tx"
  have "re_sub_spec m [] ?t1 = ?t1 \<or> length (re_sub_spec m [] ?t1) < length ?t1"
  proof (cases "total_match_length (finditer m ?t1) = 0")
    case True
    then show ?thesis
      by (simp add: re_sub_spec_empty_same)
  next
    case False
    with re_sub_spec_empty_length [of m ?t1] show ?thesis
      by simp
  qed
  then show ?thesis
    using re_sub_spec_empty_length [of m tx] re_sub_spec_empty_same [of m tx]
      re_sub_spec_outside [of m tx]
    by simp
qed

theorem replace_with_empty_shrinks_witness:
  "re_sub_spec (literal_matcher ''ab'') [] ''aaabbb'' = ''aabb''
   \<and> re_sub_spec (literal_matcher ''ab'') [] ''aabb'' = ''ab''
   \<and> outside_matches ''xxabyy'' (finditer (literal_matcher ''ab'') ''xxabyy'') = ''xxyy''
   \<and> re_sub_spec (literal_matcher ''ab'') [] ''xxabyy'' = ''xxyy''
   \<and> length (re_sub_spec (literal_matcher ''ab'') [] ''aaabbb'')
        + total_match_length (finditer (literal_matcher ''ab'') ''aaabbb'') = length ''aaabbb''
   \<and> length (re_sub_spec (literal_matcher ''ab'') [] (re_sub_spec (literal_matcher ''ab'') [] ''aaabbb''))
        < length (re_sub_spec (literal_matcher ''ab'') [] ''aaabbb'')"
proof -
  have v: "re_sub_spec (literal_matcher ''ab'') [] ''aaabbb'' = ''aabb''"
    "re_sub_spec (literal_matcher ''ab'') [] ''aabb'' = ''ab''"
    by code_simp+
  have w: "outside_matches ''xxabyy'' (finditer (literal_matcher ''ab'') ''xxabyy'') = ''xxyy''"
    by code_simp
  note r = replace_with_empty_shrinks [of "literal_matcher ''ab''" "''aaabbb''"]
  note r' = replace_with_empty_shrinks [of "literal_matcher ''ab''" "''xxabyy''"]
  have x: "re_sub_spec (literal_matcher ''ab'') [] ''xxabyy'' = ''xxyy''"
    using r' [THEN conjunct1] w by simp
  have l: "length (re_sub_spec (literal_matcher ''ab'') [] ''aaabbb'')
        + total_match_length (finditer (literal_matcher ''ab'') ''aaabbb'') = length ''aaabbb''"
    using r [THEN conjunct2] by (rule conjunct1)
  have t: "length (re_sub_spec (literal_matcher ''ab'') [] (re_sub_spec (literal_matcher ''ab'') [] ''aaabbb''))
        < length (re_sub_spec (literal_matcher ''ab'') [] ''aaabbb'')"
    unfolding v by simp
  from v w x l t show ?thesis
    by (intro conjI)
qed

text \<open>
  The claim C7 as stated fails for the pattern \<open>ab\<close> on the text \<open>aaabbb\<close>: the first
  run finds one match and gives \<open>aabb\<close>, which still contains a match; the second run
  gives \<open>ab\<close>, a different text in which the pattern again has one match, not fewer than
  the first run found (and the second run itself found one match as well).
\<close>

theorem replace_rerun_keeps_match_count:
  "re_sub_spec (literal_matcher ''ab'') [] (re_sub_spec (literal_matcher ''ab'') [] ''aaabbb'')
      \<noteq> re_sub_spec (literal_matcher ''ab'') [] ''aaabbb''
   \<and> \<not> length (finditer (literal_matcher ''ab'')
            (re_sub_spec (literal_matcher ''ab'') [] (re_sub_spec (literal_matcher ''ab'') [] ''aaabbb'')))
        < length (finditer (literal_matcher ''ab'') ''aaabbb'')
   \<and> \<not> length (finditer (literal_matcher ''ab'') (re_sub_spec (literal_matcher ''ab'') [] ''aaabbb''))
        < length (finditer (literal_matcher ''ab'') ''aaabbb'')
   \<and> finditer (literal_matcher ''ab'') (re_sub_spec (literal_matcher ''ab'') [] ''aaabbb'') \<noteq> []"
  by code_simp

section \<open>Loading the pattern library (\<open>load_patterns_file\<close>)\<close>

text \<open>
  The state of the file at \<open>PATTERNS_FILE\<close> is an input: absent
  (\<open>os.path.exists\<close> is false), present but opening or reading it raises \<open>OSError\<close>
  (\<open>IOError\<close> is the same class), or present with some bytes. The file is opened in
  text mode with \<open>encoding="utf-8"\<close>, so \<open>json.load\<close> first decodes the bytes (strict
  UTF-8: \<open>UnicodeDecodeError\<close> on an ill-formed sequence) and then parses the text; the
  parser is a parameter (\<open>None\<close> for \<open>JSONDecodeError\<close>). Exceptions are values:
  the loader returns \<open>Inl\<close> for one that leaves the function.
\<close>

type_synonym byte = "8 word"

datatype json =
    JNull
  | JBool bool
  | JNumber int
  | JString string
  | JArray "json list"
  | JObject "(string \<times> json) list"

datatype py_exception = JSONDecodeError | OSError | UnicodeDecodeError

datatype patterns_file = Absent | Unreadable | Stored "byte list"

text \<open>Well-formed UTF-8: no overlong forms, no surrogates, nothing above U+10FFFF.\<close>

definition continuation :: "byte \<Rightarrow> bool" where
  "continuation b = (0x80 \<le> b \<and> b \<le> 0xBF)"

fun utf8_valid :: "byte list \<Rightarrow> bool" where
  "utf8_valid [] = True"
| "utf8_valid (b # bs) =
     (if b < 0x80 then utf8_valid bs
      else if 0xC2 \<le> b \<and> b \<le> 0xDF then
        (case bs of
           c1 # r \<Rightarrow> continuation c1 \<and> utf8_valid r
         | _ \<Rightarrow> False)
      else if 0xE0 \<le> b \<and> b \<le> 0xEF then
        (case bs of
           c1 # c2 # r \<Rightarrow>
             continuation c1 \<and> continuation c2
             \<and> (if b = 0xE0 then 0xA0 \<le> c1 else True)
             \<and> (if b = 0xED then c1 \<le> 0x9F else True)
             \<and> utf8_valid r
         | _ \<Rightarrow> False)
      else if 0xF0 \<le> b \<and> b \<le> 0xF4 then
        (case bs of
           c1 # c2 # c3 # r \<Rightarrow>
             continuation c1 \<and> continuation c2 \<and> continuation c3
             \<and> (if b = 0xF0 then 0x90 \<le> c1 else True)
             \<and> (if b = 0xF4 then c1 \<le> 0x8F else True)
             \<and> utf8_valid r
         | _ \<Rightarrow> False)
      else False)"

definition read_json :: "(byte list \<Rightarrow> json option) \<Rightarrow> patterns_file \<Rightarrow> py_exception + json" where
  "read_json parse f =
     (case f of
        Absent \<Rightarrow> Inl OSError
      | Unreadable \<Rightarrow> Inl OSError
      | Stored bs \<Rightarrow>
         if \<not> utf8_valid bs then Inl UnicodeDecodeError
         else (case parse bs of None \<Rightarrow> Inl JSONDecodeError | Some data \<Rightarrow> Inr data))"

definition load_patterns_file :: "(byte list \<Rightarrow> json option) \<Rightarrow> patterns_file \<Rightarrow> py_exception + json list" where
  "load_patterns_file parse f =
     (if f = Absent then Inr []
      else
        (case read_json parse f of
           Inl e \<Rightarrow> if e = JSONDecodeError \<or> e = OSError then Inr [] else Inl e
         | Inr data \<Rightarrow> (case data of JArray xs \<Rightarrow> Inr xs | _ \<Rightarrow> Inr [])))"

text \<open>What the \<open>except (json.JSONDecodeError, IOError)\<close> clause and the \<open>isinstance\<close>
  test do cover.\<close>

lemma load_patterns_file_downgrades:
  "load_patterns_file parse Absent = Inr []"
  "load_patterns_file parse Unreadable = Inr []"
  "utf8_valid bs \<Longrightarrow> parse bs = None \<Longrightarrow> load_patterns_file parse (Stored bs) = Inr []"
  "utf8_valid bs \<Longrightarrow> parse bs = Some data \<Longrightarrow> \<forall>xs. data \<noteq> JArray xs \<Longrightarrow>
     load_patterns_file parse (Stored bs) = Inr []"
  "utf8_valid bs \<Longrightarrow> parse bs = Some (JArray xs) \<Longrightarrow> load_patterns_file parse (Stored bs) = Inr xs"
  by (auto simp: load_patterns_file_def read_json_def split: json.splits)

text \<open>
  Claim C8. The loader does return the empty list for an absent file, an I/O error, text
  that is not JSON and a parsed value that is not a list, but it is not true that loading
  never fails: a file whose bytes are not well-formed UTF-8 (the single byte \<open>0xFF\<close>, or
  \<open>["\<dots>"]\<close> saved in Latin-1) makes \<open>json.load\<close> raise \<open>UnicodeDecodeError\<close>, which
  the \<open>except\<close> clause does not catch.
\<close>

theorem load_patterns_file_undecodable:
  "load_patterns_file parse (Stored [0xFF]) = Inl UnicodeDecodeError
   \<and> load_patterns_file parse (Stored [0x5B, 0x22, 0xE9, 0x22, 0x5D]) = Inl UnicodeDecodeError"
  by (simp add: load_patterns_file_def read_json_def continuation_def)

end
